theory Spec2Isabelle
  imports Main "HOL-Library.Word"
begin

unbundle bit_operations_syntax

section \<open>Go values\<close>

text \<open>
  A Go \<open>[]byte\<close> is a list of 8-bit words. A Go \<open>string\<close> is a byte sequence as well
  (its UTF-8 encoding), so the conversions \<open>string(b)\<close> and \<open>[]byte(s)\<close> are the identity
  here. A string literal of the source is written \<open>str ''...''\<close>. A \<open>rune\<close> is a code
  point, held in an \<open>int\<close>.
\<close>

type_synonym byte = "8 word"
type_synonym gostring = "byte list"
type_synonym rune = int

definition str :: "string \<Rightarrow> gostring" where
  "str s = map of_char s"

text \<open>
  Go's \<open>int\<close> is a 64-bit two's complement integer on the platforms the program is built
  for. Sums and differences that involve the caller's \<open>offset\<close> or the configured sizes
  are wrapped into that range; counters that run below a slice length are not, since they
  cannot leave it.
\<close>

definition maxInt :: int where
  "maxInt = 2 ^ 63 - 1"

definition minInt :: int where
  "minInt = - (2 ^ 63)"

definition wrap64 :: "int \<Rightarrow> int" where
  "wrap64 x = (x + 2 ^ 63) mod 2 ^ 64 - 2 ^ 63"

text \<open>Run-time panics of the Go runtime that the formatting code can raise.\<close>

datatype panic = IndexOutOfRange | SliceBoundsOutOfRange | DivideByZero

text \<open>Go's integer quotient truncates towards zero and panics on a zero divisor.\<close>

definition go_div :: "int \<Rightarrow> int \<Rightarrow> panic + int" where
  "go_div a b =
     (if b = 0 then Inl DivideByZero
      else Inr (wrap64 (sgn a * sgn b * (\<bar>a\<bar> div \<bar>b\<bar>))))"

text \<open>
  The slice expression \<open>s[low:high]\<close>. The upper bound is checked against the capacity in
  Go; every use below has \<open>high \<le> len(s)\<close>, so the length stands in for it.
\<close>

definition slice :: "byte list \<Rightarrow> int \<Rightarrow> int \<Rightarrow> panic + byte list" where
  "slice s low high =
     (if 0 \<le> low \<and> low \<le> high \<and> high \<le> int (length s)
      then Inr (take (nat (high - low)) (drop (nat low) s))
      else Inl SliceBoundsOutOfRange)"

section \<open>Standard library: fmt\<close>

text \<open>
  \<open>fmt.Sprintf("%0wX", v)\<close> for an integer \<open>v\<close>: upper-case hexadecimal digits, padded
  with zeros on the left to at least \<open>w\<close> characters, a minus sign counting as one of
  them.
\<close>

definition udigits :: gostring where
  "udigits = str ''0123456789ABCDEF''"

function hexDigits :: "nat \<Rightarrow> gostring" where
  "hexDigits n = (if n = 0 then [] else hexDigits (n div 16) @ [udigits ! (n mod 16)])"
  by pat_completeness auto
termination
  by (relation "measure id") auto

declare hexDigits.simps [simp del]

definition fmt_0wX :: "nat \<Rightarrow> int \<Rightarrow> gostring" where
  "fmt_0wX w v =
     (let ds = hexDigits (nat \<bar>v\<bar>);
          prec = (if v < 0 then w - 1 else w)
      in (if v < 0 then str ''-'' else []) @ replicate (prec - length ds) (of_char CHR ''0'') @ ds)"

section \<open>Standard library: unicode/utf8 and unicode/utf16\<close>

definition RuneError :: rune where
  "RuneError = 0xFFFD"

definition MaxRune :: rune where
  "MaxRune = 0x10FFFF"

text \<open>
  The table \<open>first\<close> of unicode/utf8: information about the first byte of an encoding.
  \<open>0xF0\<close> marks ASCII, \<open>0xF1\<close> an invalid first byte; otherwise the low three bits are
  the length of the encoding and the high four bits index \<open>acceptRanges\<close>.
\<close>

definition first :: "byte \<Rightarrow> byte" where
  "first b =
     (if b < 0x80 then 0xF0
      else if b < 0xC2 then 0xF1
      else if b < 0xE0 then 0x02
      else if b = 0xE0 then 0x13
      else if b < 0xED then 0x03
      else if b = 0xED then 0x23
      else if b < 0xF0 then 0x03
      else if b = 0xF0 then 0x34
      else if b < 0xF4 then 0x04
      else if b = 0xF4 then 0x44
      else 0xF1)"

definition acceptRanges :: "nat \<Rightarrow> byte \<times> byte" where
  "acceptRanges i =
     (if i = 1 then (0xA0, 0xBF)
      else if i = 2 then (0x80, 0x9F)
      else if i = 3 then (0x90, 0xBF)
      else if i = 4 then (0x80, 0x8F)
      else (0x80, 0xBF))"

text \<open>
  \<open>utf8.DecodeRune\<close>: the first code point of \<open>p\<close> and the number of bytes of its
  encoding; \<open>(RuneError, 0)\<close> for an empty slice and \<open>(RuneError, 1)\<close> for an invalid
  encoding.
\<close>

definition DecodeRune :: "byte list \<Rightarrow> rune \<times> nat" where
  "DecodeRune p =
     (let n = length p in
      if n < 1 then (RuneError, 0)
      else
        let p0 = p ! 0; x = first p0 in
        if x \<ge> 0xF0 then ((if x = 0xF0 then uint p0 else RuneError), 1)
        else
          let sz = unat (x AND 7); accept = acceptRanges (unat (drop_bit 4 x)) in
          if n < sz then (RuneError, 1)
          else
            let b1 = p ! 1 in
            if b1 < fst accept \<or> snd accept < b1 then (RuneError, 1)
            else if sz \<le> 2 then
              (push_bit 6 (uint (p0 AND 0x1F)) OR uint (b1 AND 0x3F), 2)
            else
              let b2 = p ! 2 in
              if b2 < 0x80 \<or> 0xBF < b2 then (RuneError, 1)
              else if sz \<le> 3 then
                (push_bit 12 (uint (p0 AND 0x0F)) OR push_bit 6 (uint (b1 AND 0x3F))
                   OR uint (b2 AND 0x3F), 3)
              else
                let b3 = p ! 3 in
                if b3 < 0x80 \<or> 0xBF < b3 then (RuneError, 1)
                else
                  (push_bit 18 (uint (p0 AND 0x07)) OR push_bit 12 (uint (b1 AND 0x3F))
                     OR push_bit 6 (uint (b2 AND 0x3F)) OR uint (b3 AND 0x3F), 4))"

text \<open>
  \<open>utf8.AppendRune\<close> on an empty slice, which is what \<open>strings.Builder.WriteRune\<close>
  appends: the UTF-8 encoding of \<open>r\<close>, and that of \<open>RuneError\<close> for a value that is not
  a code point.
\<close>

definition encode3 :: "rune \<Rightarrow> gostring" where
  "encode3 r =
     [0xE0 OR of_int (drop_bit 12 r),
      0x80 OR (of_int (drop_bit 6 r) AND 0x3F),
      0x80 OR (of_int r AND 0x3F)]"

definition EncodeRune :: "rune \<Rightarrow> gostring" where
  "EncodeRune r =
     (if 0 \<le> r \<and> r \<le> 0x7F then [of_int r]
      else if 0 \<le> r \<and> r \<le> 0x7FF then
        [0xC0 OR of_int (drop_bit 6 r), 0x80 OR (of_int r AND 0x3F)]
      else if r < 0 \<or> r > MaxRune \<or> (0xD800 \<le> r \<and> r \<le> 0xDFFF) then encode3 RuneError
      else if r \<le> 0xFFFF then encode3 r
      else
        [0xF0 OR of_int (drop_bit 18 r),
         0x80 OR (of_int (drop_bit 12 r) AND 0x3F),
         0x80 OR (of_int (drop_bit 6 r) AND 0x3F),
         0x80 OR (of_int r AND 0x3F)])"

text \<open>
  The runes of a string, as \<open>for _, r := range s\<close> visits them: each invalid byte is one
  \<open>RuneError\<close>. \<open>utf8.RuneCountInString\<close> is their number.
\<close>

function stringRunes :: "gostring \<Rightarrow> rune list" where
  "stringRunes s =
     (if s = [] then []
      else (case DecodeRune s of (r, sz) \<Rightarrow> r # stringRunes (drop sz s)))"
  by pat_completeness auto
termination
  by (relation "measure length") (auto simp: DecodeRune_def Let_def split: if_splits)

declare stringRunes.simps [simp del]

definition RuneCountInString :: "gostring \<Rightarrow> int" where
  "RuneCountInString s = int (length (stringRunes s))"

text \<open>
  \<open>utf16.Decode\<close>: the code points of a sequence of 16-bit units. A high surrogate
  followed by a low one is combined; any other surrogate becomes \<open>U+FFFD\<close>.
\<close>

definition utf16_DecodeRune :: "rune \<Rightarrow> rune \<Rightarrow> rune" where
  "utf16_DecodeRune r1 r2 = (push_bit 10 (r1 - 0xD800) OR (r2 - 0xDC00)) + 0x10000"

fun utf16_Decode :: "16 word list \<Rightarrow> rune list" where
  "utf16_Decode [] = []"
| "utf16_Decode [r] = (if r < 0xD800 \<or> 0xE000 \<le> r then [uint r] else [0xFFFD])"
| "utf16_Decode (r # r2 # s) =
     (if r < 0xD800 \<or> 0xE000 \<le> r then uint r # utf16_Decode (r2 # s)
      else if 0xD800 \<le> r \<and> r < 0xDC00 \<and> 0xDC00 \<le> r2 \<and> r2 < 0xE000
        then utf16_DecodeRune (uint r) (uint r2) # utf16_Decode s
      else 0xFFFD # utf16_Decode (r2 # s))"

section \<open>Library functions taken as parameters\<close>

text \<open>
  Two library functions are tables too large to write down; the formatting code is
  verified for every choice of them.
  \<^item> \<open>IsPrint\<close> is \<open>unicode.IsPrint\<close>.
  \<^item> \<open>GB18030_Bytes data\<close> is
    \<open>transform.Bytes(simplifiedchinese.GB18030.NewDecoder(), data)\<close>: \<open>None\<close> when the call
    returns an error, the decoded bytes otherwise.
\<close>

record golib =
  IsPrint :: "rune \<Rightarrow> bool"
  GB18030_Bytes :: "byte list \<Rightarrow> byte list option"

section \<open>The application state\<close>

text \<open>
  The fields of \<open>HexDumpApp\<close> that are not widgets. The line formatters read
  \<open>fileData\<close>, \<open>bytesPerGroup\<close>, \<open>bytesPerLine\<close> and \<open>encoding\<close> only.
\<close>

record HexDumpApp =
  fileData :: "byte list"
  fileName :: gostring
  bytesPerGroup :: int
  encoding :: gostring
  bytesPerLine :: int
  visibleLines :: int
  currentTopLine :: int
  totalLines :: int
  cachedHexLines :: "int \<rightharpoonup> gostring"
  cachedCharLines :: "int \<rightharpoonup> gostring"

text \<open>\<open>NewHexDumpApp\<close>, before a file is loaded.\<close>

definition NewHexDumpApp :: HexDumpApp where
  "NewHexDumpApp =
     \<lparr>fileData = [], fileName = [], bytesPerGroup = 1, encoding = str ''ISO Latin-1'',
      bytesPerLine = 16, visibleLines = 0, currentTopLine = 0, totalLines = 0,
      cachedHexLines = Map.empty, cachedCharLines = Map.empty\<rparr>"

section \<open>generateHexLine\<close>

text \<open>
  The inner loop \<open>for byteIndex := index; byteIndex < groupEnd; byteIndex++\<close>, which
  writes \<open>fmt.Sprintf("%02X", h.fileData[byteIndex])\<close>. Indexing outside the slice panics.
\<close>

function writeGroupBytes :: "byte list \<Rightarrow> int \<Rightarrow> int \<Rightarrow> gostring \<Rightarrow> panic + gostring" where
  "writeGroupBytes fd byteIndex groupEnd builder =
     (if byteIndex < groupEnd then
        (if 0 \<le> byteIndex \<and> byteIndex < int (length fd) then
           writeGroupBytes fd (byteIndex + 1) groupEnd
             (builder @ fmt_0wX 2 (uint (fd ! nat byteIndex)))
         else Inl IndexOutOfRange)
      else Inr builder)"
  by pat_completeness auto
termination
  by (relation "measure (\<lambda>(fd, byteIndex, groupEnd, builder). nat (groupEnd - byteIndex))") auto

declare writeGroupBytes.simps [simp del]

text \<open>
  The outer loop \<open>for index := offset; index < lineEnd; index += h.bytesPerGroup\<close>. With
  a group size that is not positive it need not terminate, so it is a partial function:
  \<open>None\<close> is a run that does not return.
\<close>

partial_function (option) hexGroups ::
  "HexDumpApp \<Rightarrow> int \<Rightarrow> int \<Rightarrow> gostring \<Rightarrow> (panic + gostring) option" where
  "hexGroups h lineEnd index builder =
     (if index < lineEnd then
        (let groupEnd = wrap64 (index + bytesPerGroup h);
             groupEnd = (if groupEnd > lineEnd then lineEnd else groupEnd)
         in case writeGroupBytes (fileData h) index groupEnd builder of
              Inl e \<Rightarrow> Some (Inl e)
            | Inr builder \<Rightarrow>
                hexGroups h lineEnd (wrap64 (index + bytesPerGroup h))
                  (if groupEnd < lineEnd then builder @ str '' '' else builder))
      else Some (Inr builder))"

text \<open>
  The two padding loops. The builder is a list here and has no largest length; a Go string
  has at most \<open>maxInt\<close> bytes. Inside the buffer a line is shorter than a hundred bytes.
  For an offset past the end the first loop runs \<open>16 + offset - len\<close> times, and the
  theorem on the content of such a line is stated for lines of at most \<open>maxInt\<close> bytes.
\<close>

function padMissingBytes :: "int \<Rightarrow> int \<Rightarrow> gostring \<Rightarrow> gostring" where
  "padMissingBytes index bpl builder =
     (if index < bpl then padMissingBytes (index + 1) bpl (builder @ str ''  '') else builder)"
  by pat_completeness auto
termination
  by (relation "measure (\<lambda>(index, bpl, builder). nat (bpl - index))") auto

declare padMissingBytes.simps [simp del]

function padMissingSeparators :: "int \<Rightarrow> int \<Rightarrow> gostring \<Rightarrow> gostring" where
  "padMissingSeparators index missingGroups builder =
     (if index < missingGroups
      then padMissingSeparators (index + 1) missingGroups (builder @ str '' '')
      else builder)"
  by pat_completeness auto
termination
  by (relation "measure (\<lambda>(index, missingGroups, builder). nat (missingGroups - index))") auto

declare padMissingSeparators.simps [simp del]

definition generateHexLine :: "HexDumpApp \<Rightarrow> int \<Rightarrow> (panic + gostring) option" where
  "generateHexLine h offset =
     (let builder = fmt_0wX 8 offset @ str '': '';
          dataLen = int (length (fileData h));
          lineEnd = wrap64 (offset + bytesPerLine h);
          lineEnd = (if lineEnd > dataLen then dataLen else lineEnd)
      in case hexGroups h lineEnd offset builder of
           None \<Rightarrow> None
         | Some (Inl e) \<Rightarrow> Some (Inl e)
         | Some (Inr builder) \<Rightarrow>
             (let bytesOnLine = wrap64 (lineEnd - offset) in
              if bytesOnLine < bytesPerLine h then
                (case go_div (wrap64 (wrap64 (bytesOnLine + bytesPerGroup h) - 1))
                        (bytesPerGroup h) of
                   Inl e \<Rightarrow> Some (Inl e)
                 | Inr groupsOnLine \<Rightarrow>
                     (case go_div (wrap64 (wrap64 (bytesPerLine h + bytesPerGroup h) - 1))
                             (bytesPerGroup h) of
                        Inl e \<Rightarrow> Some (Inl e)
                      | Inr totalGroups \<Rightarrow>
                          (let missingGroups = wrap64 (totalGroups - groupsOnLine);
                               builder = padMissingBytes bytesOnLine (bytesPerLine h) builder;
                               builder = padMissingSeparators 0 missingGroups builder
                           in Some (Inr (builder @ str [CHR 0x0A])))))
              else Some (Inr (builder @ str [CHR 0x0A]))))"

text \<open>
  The revision of the program that shows the dump in a list widget
  (\<open>src/unnamed/part_001\<close>) has the same \<open>generateHexLine\<close>, statement for statement,
  up to its last line: it returns \<open>strings.TrimRight(builder.String(), "\n ")\<close>, the line
  without the newlines and spaces at its end. It is \<open>generateHexLine_list\<close> here.
  \<open>TrimRight\<close> is the library function for a cutset of ASCII characters, which removes
  bytes.
\<close>

definition TrimRight :: "gostring \<Rightarrow> gostring \<Rightarrow> gostring" where
  "TrimRight s cutset = rev (dropWhile (\<lambda>c. c \<in> set cutset) (rev s))"

definition generateHexLine_list :: "HexDumpApp \<Rightarrow> int \<Rightarrow> (panic + gostring) option" where
  "generateHexLine_list h offset =
     (let builder = fmt_0wX 8 offset @ str '': '';
          dataLen = int (length (fileData h));
          lineEnd = wrap64 (offset + bytesPerLine h);
          lineEnd = (if lineEnd > dataLen then dataLen else lineEnd)
      in case hexGroups h lineEnd offset builder of
           None \<Rightarrow> None
         | Some (Inl e) \<Rightarrow> Some (Inl e)
         | Some (Inr builder) \<Rightarrow>
             (let bytesOnLine = wrap64 (lineEnd - offset) in
              if bytesOnLine < bytesPerLine h then
                (case go_div (wrap64 (wrap64 (bytesOnLine + bytesPerGroup h) - 1))
                        (bytesPerGroup h) of
                   Inl e \<Rightarrow> Some (Inl e)
                 | Inr groupsOnLine \<Rightarrow>
                     (case go_div (wrap64 (wrap64 (bytesPerLine h + bytesPerGroup h) - 1))
                             (bytesPerGroup h) of
                        Inl e \<Rightarrow> Some (Inl e)
                      | Inr totalGroups \<Rightarrow>
                          (let missingGroups = wrap64 (totalGroups - groupsOnLine);
                               builder = padMissingBytes bytesOnLine (bytesPerLine h) builder;
                               builder = padMissingSeparators 0 missingGroups builder
                           in Some (Inr (TrimRight (builder @ str [CHR 0x0A])
                                           (str [CHR 0x0A, CHR '' '']))))))
              else Some (Inr (TrimRight (builder @ str [CHR 0x0A]) (str [CHR 0x0A, CHR '' ''])))))"

section \<open>The decoders\<close>

text \<open>\<open>bytesToLatin1\<close>: \<open>for _, b := range data\<close> over a \<open>strings.Builder\<close>.\<close>

fun latin1Loop :: "byte list \<Rightarrow> gostring \<Rightarrow> gostring" where
  "latin1Loop [] builder = builder"
| "latin1Loop (b # data) builder =
     latin1Loop data
       (if b \<ge> 32 \<and> b \<le> 126 then builder @ [b]
        else if b \<ge> 160 \<and> b \<le> 255 then builder @ EncodeRune (uint b)
        else builder @ str ''.'')"

definition bytesToLatin1 :: "byte list \<Rightarrow> gostring" where
  "bytesToLatin1 data = latin1Loop data []"

text \<open>\<open>bytesToUTF8\<close>: \<open>for len(data) > 0\<close>, consuming \<open>data\<close> from the front.\<close>

function utf8Loop :: "golib \<Rightarrow> byte list \<Rightarrow> gostring \<Rightarrow> gostring" where
  "utf8Loop L data builder =
     (if length data > 0 then
        (case DecodeRune data of
           (r, sz) \<Rightarrow>
             if r = RuneError \<and> sz = 1 then utf8Loop L (drop 1 data) (builder @ str ''.'')
             else
               utf8Loop L (drop sz data)
                 (if IsPrint L r then builder @ EncodeRune r else builder @ str ''.''))
      else builder)"
  by pat_completeness auto
termination
  by (relation "measure (\<lambda>(L, data, builder). length data)") (auto simp: DecodeRune_def Let_def split: if_splits)

declare utf8Loop.simps [simp del]

definition bytesToUTF8 :: "golib \<Rightarrow> byte list \<Rightarrow> gostring" where
  "bytesToUTF8 L data = utf8Loop L data []"

text \<open>
  \<open>bytesToUTF16LE\<close>: \<open>for index := 0; index < len(data); index += 2\<close>, leaving the loop
  at an unpaired last byte. Both reads are inside the slice by the two tests before them.
\<close>

function utf16Loop :: "golib \<Rightarrow> byte list \<Rightarrow> nat \<Rightarrow> gostring \<Rightarrow> gostring" where
  "utf16Loop L data index builder =
     (if index < length data then
        (if index + 1 \<ge> length data then builder @ str ''.''
         else
           let low = (ucast (data ! index) :: 16 word);
               high = (ucast (data ! (index + 1)) :: 16 word);
               codeUnit = low OR push_bit 8 high;
               runes = utf16_Decode [codeUnit]
           in utf16Loop L data (index + 2)
                (if length runes > 0 \<and> IsPrint L (runes ! 0)
                 then builder @ EncodeRune (runes ! 0)
                 else builder @ str ''.''))
      else builder)"
  by pat_completeness auto
termination
  by (relation "measure (\<lambda>(L, data, index, builder). length data - index)") auto

declare utf16Loop.simps [simp del]

definition bytesToUTF16LE :: "golib \<Rightarrow> byte list \<Rightarrow> gostring" where
  "bytesToUTF16LE L data = utf16Loop L data 0 []"

text \<open>
  \<open>bytesToGB18030\<close>: one dot per byte when the decoder reports an error, otherwise the
  printable runes of the decoded string.
\<close>

fun dotLoop :: "byte list \<Rightarrow> gostring \<Rightarrow> gostring" where
  "dotLoop [] builder = builder"
| "dotLoop (b # data) builder = dotLoop data (builder @ str ''.'')"

function printableLoop :: "golib \<Rightarrow> gostring \<Rightarrow> gostring \<Rightarrow> gostring" where
  "printableLoop L s builder =
     (if s = [] then builder
      else
        (case DecodeRune s of
           (r, sz) \<Rightarrow>
             printableLoop L (drop sz s)
               (if IsPrint L r then builder @ EncodeRune r else builder @ str ''.'')))"
  by pat_completeness auto
termination
  by (relation "measure (\<lambda>(L, s, builder). length s)") (auto simp: DecodeRune_def Let_def split: if_splits)

declare printableLoop.simps [simp del]

definition bytesToGB18030 :: "golib \<Rightarrow> byte list \<Rightarrow> gostring" where
  "bytesToGB18030 L data =
     (case GB18030_Bytes L data of
        None \<Rightarrow> dotLoop data []
      | Some result \<Rightarrow> printableLoop L result [])"

section \<open>bytesToChars and generateCharLine\<close>

definition bytesToChars :: "golib \<Rightarrow> HexDumpApp \<Rightarrow> byte list \<Rightarrow> gostring" where
  "bytesToChars L h data =
     (if encoding h = str ''ISO Latin-1'' then bytesToLatin1 data
      else if encoding h = str ''UTF-8'' then bytesToUTF8 L data
      else if encoding h = str ''UTF-16LE'' then bytesToUTF16LE L data
      else if encoding h = str ''GB 18030'' then bytesToGB18030 L data
      else bytesToLatin1 data)"

definition generateCharLine :: "golib \<Rightarrow> HexDumpApp \<Rightarrow> int \<Rightarrow> panic + gostring" where
  "generateCharLine L h offset =
     (let dataLen = int (length (fileData h));
          lineEnd = wrap64 (offset + bytesPerLine h);
          lineEnd = (if lineEnd > dataLen then dataLen else lineEnd)
      in case slice (fileData h) offset lineEnd of
           Inl e \<Rightarrow> Inl e
         | Inr lineData \<Rightarrow> Inr (bytesToChars L h lineData @ str [CHR 0x0A]))"

section \<open>Reference descriptions of the output\<close>

text \<open>
  The functions of this section are not in the program. They describe its output in
  closed form, and the theorems below relate the loops of the program to them.
\<close>

definition space :: byte where "space = of_char CHR '' ''"

text \<open>The two hexadecimal digits of each byte, one byte after the other.\<close>

definition hexPairs :: "byte list \<Rightarrow> gostring" where
  "hexPairs bs = concat (map (\<lambda>b. fmt_0wX 2 (uint b)) bs)"

text \<open>
  The bytes of a line in groups of \<open>g\<close>, a single space between two groups and none
  after the last one.
\<close>

function groupsText :: "nat \<Rightarrow> byte list \<Rightarrow> gostring" where
  "groupsText g bs =
     (if bs = [] \<or> g = 0 then []
      else hexPairs (take g bs) @ (if g < length bs then [space] else []) @ groupsText g (drop g bs))"
  by pat_completeness auto
termination
  by (relation "measure (\<lambda>(g, bs). length bs)") auto

declare groupsText.simps [simp del]

text \<open>A line with its spaces removed.\<close>

definition despace :: "gostring \<Rightarrow> gostring" where
  "despace s = filter (\<lambda>c. c \<noteq> space) s"

text \<open>
  The end of the line that starts at \<open>offset\<close>, as both line formatters compute it, and
  the part of \<open>generateHexLine\<close> after its first loop.
\<close>

definition lineEndOf :: "HexDumpApp \<Rightarrow> int \<Rightarrow> int" where
  "lineEndOf h offset =
     (if wrap64 (offset + bytesPerLine h) > int (length (fileData h))
      then int (length (fileData h)) else wrap64 (offset + bytesPerLine h))"

definition finishLine :: "HexDumpApp \<Rightarrow> int \<Rightarrow> int \<Rightarrow> gostring \<Rightarrow> (panic + gostring) option" where
  "finishLine h offset lineEnd builder =
     (let bytesOnLine = wrap64 (lineEnd - offset) in
      if bytesOnLine < bytesPerLine h then
        (case go_div (wrap64 (wrap64 (bytesOnLine + bytesPerGroup h) - 1)) (bytesPerGroup h) of
           Inl e \<Rightarrow> Some (Inl e)
         | Inr groupsOnLine \<Rightarrow>
             (case go_div (wrap64 (wrap64 (bytesPerLine h + bytesPerGroup h) - 1))
                     (bytesPerGroup h) of
                Inl e \<Rightarrow> Some (Inl e)
              | Inr totalGroups \<Rightarrow>
                  (let missingGroups = wrap64 (totalGroups - groupsOnLine);
                       builder = padMissingBytes bytesOnLine (bytesPerLine h) builder;
                       builder = padMissingSeparators 0 missingGroups builder
                   in Some (Inr (builder @ str [CHR 0x0A])))))
      else Some (Inr (builder @ str [CHR 0x0A])))"

text \<open>
  A line of a 16-byte dump, short or full: the address, the groups, two spaces for each
  missing byte and one for each missing separator, and the newline.
\<close>

definition paddedHexLine :: "HexDumpApp \<Rightarrow> int \<Rightarrow> gostring" where
  "paddedHexLine h offset =
     (let bs = take 16 (drop (nat offset) (fileData h));
          g = nat (bytesPerGroup h);
          missingBytes = 16 - length bs;
          missingSeparators = (16 + g - 1) div g - (length bs + g - 1) div g
      in fmt_0wX 8 offset @ str '': '' @ groupsText g bs @
         replicate (2 * missingBytes) space @ replicate missingSeparators space @
         str [CHR 0x0A])"

text \<open>
  The code point that \<open>bytesToLatin1\<close> shows for a byte, and the text written for a code
  point by the other decoders: the code point itself when it is printable, a dot
  otherwise.
\<close>

definition latin1Rune :: "byte \<Rightarrow> rune" where
  "latin1Rune b = (if (32 \<le> b \<and> b \<le> 126) \<or> 160 \<le> b then uint b else 46)"

definition emit :: "golib \<Rightarrow> rune \<Rightarrow> gostring" where
  "emit L r = (if IsPrint L r then EncodeRune r else str ''.'')"

text \<open>
  The 16-bit units of a byte sequence read in little-endian pairs, the code point of a
  single unit, and the text of \<open>bytesToUTF16LE\<close> as a function of the bytes.
\<close>

fun codeUnits :: "byte list \<Rightarrow> 16 word list" where
  "codeUnits (lo # hi # rest) = word_of_nat (unat lo + 256 * unat hi) # codeUnits rest"
| "codeUnits _ = []"

definition unitRune :: "16 word \<Rightarrow> rune" where
  "unitRune u = (if 0xD800 \<le> u \<and> u < 0xE000 then 0xFFFD else uint u)"

fun utf16Text :: "golib \<Rightarrow> byte list \<Rightarrow> gostring" where
  "utf16Text L (lo # hi # rest) =
     emit L (unitRune (word_of_nat (unat lo + 256 * unat hi))) @ utf16Text L rest"
| "utf16Text L [b] = str ''.''"
| "utf16Text L [] = []"

text \<open>The text of \<open>bytesToUTF8\<close> as a function of the bytes.\<close>

function utf8Text :: "golib \<Rightarrow> byte list \<Rightarrow> gostring" where
  "utf8Text L data =
     (if data = [] then []
      else
        (case DecodeRune data of
           (r, sz) \<Rightarrow>
             if r = RuneError \<and> sz = 1 then str ''.'' @ utf8Text L (drop 1 data)
             else emit L r @ utf8Text L (drop sz data)))"
  by pat_completeness auto
termination
  by (relation "measure (\<lambda>(L, data). length data)") (auto simp: DecodeRune_def Let_def split: if_splits)

declare utf8Text.simps [simp del]

text \<open>
  The line that the list revision returns: the padded line without its padding and
  newline.
\<close>

definition trimmedHexLine :: "HexDumpApp \<Rightarrow> int \<Rightarrow> gostring" where
  "trimmedHexLine h offset =
     fmt_0wX 8 offset @ str '': '' @
     groupsText (nat (bytesPerGroup h)) (take 16 (drop (nat offset) (fileData h)))"


section \<open>Example inputs\<close>

text \<open>
  A stand-in for the two library functions, the five bytes of \<open>Hello\<close>, a buffer of
  4 GiB and one byte, a buffer of three bytes, a buffer of one full line, and the
  \<open>Hello\<close> state after some scrolling, with stale cache entries.
\<close>

definition exampleLib :: golib where
  "exampleLib = \<lparr>IsPrint = (\<lambda>r. 32 \<le> r \<and> r \<le> 126), GB18030_Bytes = (\<lambda>data. Some data)\<rparr>"

definition helloApp :: HexDumpApp where
  "helloApp = NewHexDumpApp\<lparr>fileData := [0x48, 0x65, 0x6C, 0x6C, 0x6F]\<rparr>"

definition hugeApp :: HexDumpApp where
  "hugeApp = NewHexDumpApp\<lparr>fileData := replicate 4294967297 0\<rparr>"


definition scrolledApp :: HexDumpApp where
  "scrolledApp = helloApp\<lparr>fileName := str ''a.bin'', currentTopLine := 7, visibleLines := 30,
     totalLines := 1, cachedHexLines := [0 \<mapsto> str ''stale''], cachedCharLines := [0 \<mapsto> str ''stale'']\<rparr>"

definition fullApp :: HexDumpApp where
  "fullApp = NewHexDumpApp\<lparr>fileData := replicate 16 0x41\<rparr>"

text \<open>
  A second stand-in, which follows the GB18030 decoder of \<open>golang.org/x/text\<close> on invalid
  input: that decoder reports no error and puts \<open>U+FFFD\<close> for each byte that starts no
  valid sequence, and \<open>unicode.IsPrint\<close> holds of \<open>U+FFFD\<close>.
\<close>

definition replacingLib :: golib where
  "replacingLib =
     \<lparr>IsPrint = (\<lambda>r. (32 \<le> r \<and> r \<le> 126) \<or> r = 0xFFFD),
      GB18030_Bytes = (\<lambda>data. Some (concat (map (\<lambda>b. if b < 0x80 then [b] else EncodeRune 0xFFFD) data)))\<rparr>"

section \<open>Lemmas\<close>

lemma wrap64_id: "minInt \<le> x \<Longrightarrow> x \<le> maxInt \<Longrightarrow> wrap64 x = x"
  by (simp add: wrap64_def minInt_def maxInt_def)

lemma hexDigits_0: "hexDigits 0 = []"
  by (subst hexDigits.simps) simp

lemma hexDigits_lt16: "0 < n \<Longrightarrow> n < 16 \<Longrightarrow> hexDigits n = [udigits ! n]"
  by (subst hexDigits.simps) (simp add: hexDigits_0)

lemma hexDigits_lt256: "16 \<le> n \<Longrightarrow> n < 256 \<Longrightarrow> hexDigits n = [udigits ! (n div 16), udigits ! (n mod 16)]"
  by (subst hexDigits.simps) (simp add: hexDigits_lt16)

lemma fmt_02X_byte: "fmt_0wX 2 (uint (b::byte)) = [udigits ! (unat b div 16), udigits ! (unat b mod 16)]"
proof -
  have "unat b < 2 ^ LENGTH(8)" by (rule unsigned_less)
  then have lt: "unat b < 256" by simp
  consider "unat b = 0" | "0 < unat b" "unat b < 16" | "16 \<le> unat b" by linarith
  then show ?thesis
  proof cases
    case 1
    then show ?thesis by (simp add: fmt_0wX_def hexDigits_0 udigits_def str_def numeral_2_eq_2)
  next
    case 2
    then show ?thesis by (simp add: fmt_0wX_def hexDigits_lt16 udigits_def str_def numeral_2_eq_2)
  next
    case 3
    then show ?thesis using lt by (simp add: fmt_0wX_def hexDigits_lt256)
  qed
qed

lemma udigits_nth_not_space: "k < 16 \<Longrightarrow> udigits ! k \<noteq> space"
proof -
  assume "k < 16"
  then have k: "k \<in> set [0..<16]" by simp
  have "list_all (\<lambda>k. udigits ! k \<noteq> space) [0..<16]"
    by code_simp
  with k show ?thesis
    unfolding list_all_iff by blast
qed

lemma length_hexDigits_le: "n < 16 ^ k \<Longrightarrow> length (hexDigits n) \<le> k"
proof (induction k arbitrary: n)
  case 0
  then show ?case by (simp add: hexDigits_0)
next
  case (Suc k)
  show ?case
  proof (cases "n = 0")
    case True
    then show ?thesis by (simp add: hexDigits_0)
  next
    case False
    from Suc.prems have "n div 16 < 16 ^ k"
      by (simp add: less_mult_imp_div_less mult.commute)
    then have "length (hexDigits (n div 16)) \<le> k" by (rule Suc.IH)
    with False show ?thesis by (subst hexDigits.simps) simp
  qed
qed

lemma length_fmt_08X: "0 \<le> v \<Longrightarrow> v < 2 ^ 32 \<Longrightarrow> length (fmt_0wX 8 v) = 8"
proof -
  assume v: "0 \<le> v" "v < 2 ^ 32"
  then have "nat v < 16 ^ 8" by simp
  then have "length (hexDigits (nat v)) \<le> 8" by (rule length_hexDigits_le)
  with v show ?thesis by (simp add: fmt_0wX_def Let_def)
qed

lemma hexPairs_Nil [simp]: "hexPairs [] = []"
  by (simp add: hexPairs_def)

lemma hexPairs_Cons: "hexPairs (x # xs) = fmt_0wX 2 (uint x) @ hexPairs xs"
  by (simp add: hexPairs_def)

lemma hexPairs_append: "hexPairs (xs @ ys) = hexPairs xs @ hexPairs ys"
  by (simp add: hexPairs_def)

lemma length_hexPairs: "length (hexPairs bs) = 2 * length bs"
  by (induction bs) (simp_all add: hexPairs_Cons fmt_02X_byte)

lemma hexPairs_no_space: "filter (\<lambda>c. c \<noteq> space) (hexPairs bs) = hexPairs bs"
proof (induction bs)
  case Nil
  then show ?case by simp
next
  case (Cons b bs)
  have "unat b < 2 ^ LENGTH(8)" by (rule unsigned_less)
  then have "unat b div 16 < 16" by simp
  then have "udigits ! (unat b div 16) \<noteq> space" "udigits ! (unat b mod 16) \<noteq> space"
    by (simp_all add: udigits_nth_not_space)
  with Cons show ?case
    by (simp add: hexPairs_Cons fmt_02X_byte)
qed

lemma take_drop_step:
  assumes "0 \<le> i" "i < e" "e \<le> int (length fd)"
  shows "take (nat (e - i)) (drop (nat i) fd) = fd ! nat i # take (nat (e - (i + 1))) (drop (nat (i + 1)) fd)"
proof -
  from assms have lt: "nat i < length fd" by linarith
  from assms have n: "nat (e - i) = Suc (nat (e - (i + 1)))" by linarith
  from assms have m: "nat (i + 1) = Suc (nat i)" by linarith
  show ?thesis
    unfolding n m using lt by (simp add: Cons_nth_drop_Suc [symmetric])
qed

lemma writeGroupBytes_ok:
  "0 \<le> i \<Longrightarrow> e \<le> int (length fd) \<Longrightarrow>
   writeGroupBytes fd i e b = Inr (b @ hexPairs (take (nat (e - i)) (drop (nat i) fd)))"
proof (induction fd i e b rule: writeGroupBytes.induct)
  case (1 fd i e b)
  show ?case
  proof (cases "i < e")
    case True
    with "1.prems" have inr: "0 \<le> i \<and> i < int (length fd)" by simp
    have IH: "writeGroupBytes fd (i + 1) e (b @ fmt_0wX 2 (uint (fd ! nat i))) =
        Inr ((b @ fmt_0wX 2 (uint (fd ! nat i))) @ hexPairs (take (nat (e - (i + 1))) (drop (nat (i + 1)) fd)))"
      using "1.IH" [OF True inr] "1.prems" by simp
    show ?thesis
      by (subst writeGroupBytes.simps)
        (simp add: True inr IH take_drop_step [OF _ True "1.prems"(2)] "1.prems"(1) hexPairs_Cons)
  next
    case False
    then show ?thesis
      by (subst writeGroupBytes.simps) simp
  qed
qed

lemma writeGroupBytes_negative:
  "i < e \<Longrightarrow> i < 0 \<Longrightarrow> writeGroupBytes fd i e b = Inl IndexOutOfRange"
  by (subst writeGroupBytes.simps) simp

lemma hexGroups_done: "\<not> index < lineEnd \<Longrightarrow> hexGroups h lineEnd index b = Some (Inr b)"
  by (subst hexGroups.simps) simp

lemma groupsText_Nil [simp]: "groupsText g [] = []"
  by (subst groupsText.simps) simp

lemma hexGroups_ok:
  assumes g: "0 < bytesPerGroup h"
    and le: "lineEnd \<le> int (length (fileData h))"
    and nw: "lineEnd + bytesPerGroup h \<le> maxInt"
  shows "0 \<le> index \<Longrightarrow>
    hexGroups h lineEnd index b =
      Some (Inr (b @ groupsText (nat (bytesPerGroup h))
                       (take (nat (lineEnd - index)) (drop (nat index) (fileData h)))))"
proof (induction "nat (lineEnd - index)" arbitrary: index b rule: less_induct)
  case less
  let ?g = "bytesPerGroup h" and ?fd = "fileData h"
  show ?case
  proof (cases "index < lineEnd")
    case False
    then show ?thesis by (simp add: hexGroups_done)
  next
    case True
    let ?bs = "take (nat (lineEnd - index)) (drop (nat index) ?fd)"
    have w: "wrap64 (index + ?g) = index + ?g"
      using g nw True less.prems by (intro wrap64_id) (simp_all add: minInt_def)
    define groupEnd where "groupEnd = (if index + ?g > lineEnd then lineEnd else index + ?g)"
    have ge: "groupEnd \<le> int (length ?fd)" "index < groupEnd" "groupEnd \<le> lineEnd"
      using le g True by (auto simp: groupEnd_def)
    have wg: "writeGroupBytes ?fd index groupEnd b =
        Inr (b @ hexPairs (take (nat (groupEnd - index)) (drop (nat index) ?fd)))"
      using less.prems ge by (simp add: writeGroupBytes_ok)
    have len: "length ?bs = nat (lineEnd - index)"
      using le less.prems True by simp
    have tk: "take (nat ?g) ?bs = take (nat (groupEnd - index)) (drop (nat index) ?fd)"
      using g True by (auto simp: groupEnd_def min_def take_take)
    have dr: "drop (nat ?g) ?bs = take (nat (lineEnd - (index + ?g))) (drop (nat (index + ?g)) ?fd)"
    proof -
      have n1: "nat (lineEnd - index) - nat ?g = nat (lineEnd - (index + ?g))"
        using g less.prems True by linarith
      have n2: "nat ?g + nat index = nat (index + ?g)"
        using g less.prems by linarith
      show ?thesis by (simp add: drop_take n1 n2)
    qed
    have sep: "(nat ?g < length ?bs) = (groupEnd < lineEnd)"
      using g True len by (auto simp: groupEnd_def)
    have ne: "?bs \<noteq> []" using len True by auto
    have IH: "hexGroups h lineEnd (index + ?g) b' =
        Some (Inr (b' @ groupsText (nat ?g) (drop (nat ?g) ?bs)))" for b'
      unfolding dr using g True less.prems by (intro less.hyps) simp_all
    have unf: "groupsText (nat ?g) ?bs =
        hexPairs (take (nat ?g) ?bs) @ (if groupEnd < lineEnd then [space] else []) @
        groupsText (nat ?g) (drop (nat ?g) ?bs)"
      using ne g sep by (subst groupsText.simps) simp
    show ?thesis
      apply (subst hexGroups.simps)
      apply (simp only: True if_True Let_def w groupEnd_def [symmetric] wg sum.case IH unf tk)
      apply (simp add: str_def space_def)
      done
  qed
qed

lemma despace_append: "despace (a @ b) = despace a @ despace b"
  by (simp add: despace_def)

lemma despace_replicate: "despace (replicate n space) = []"
  by (simp add: despace_def)

lemma despace_hexPairs: "despace (hexPairs bs) = hexPairs bs"
  by (simp add: despace_def hexPairs_no_space)

lemma despace_groupsText: "0 < g \<Longrightarrow> despace (groupsText g bs) = hexPairs bs"
proof (induction g bs rule: groupsText.induct)
  case (1 g bs)
  show ?case
  proof (cases "bs = []")
    case True
    then show ?thesis by (simp add: despace_def)
  next
    case False
    with "1.prems" have IH: "despace (groupsText g (drop g bs)) = hexPairs (drop g bs)"
      using "1.IH" by simp
    have "hexPairs (take g bs) @ hexPairs (drop g bs) = hexPairs bs"
      by (simp add: hexPairs_append [symmetric])
    with False "1.prems" IH show ?thesis
      by (subst groupsText.simps) (simp add: despace_append despace_hexPairs, simp add: despace_def)
  qed
qed

lemma length_groupsText:
  "0 < g \<Longrightarrow> length (groupsText g bs) = 2 * length bs + (length bs - 1) div g"
proof (induction g bs rule: groupsText.induct)
  case (1 g bs)
  show ?case
  proof (cases "bs = []")
    case True
    with "1.prems" show ?thesis by simp
  next
    case False
    with "1.prems" have IH: "length (groupsText g (drop g bs)) =
        2 * length (drop g bs) + (length (drop g bs) - 1) div g"
      using "1.IH" by simp
    show ?thesis
    proof (cases "g < length bs")
      case True
      have "length bs - 1 = (length bs - g - 1) + g"
        using True by simp
      then have "(length bs - 1) div g = (length bs - g - 1) div g + 1"
        using "1.prems" by (metis div_add_self2 less_numeral_extra(3))
      with False True "1.prems" IH show ?thesis
        by (subst groupsText.simps) (simp add: length_hexPairs min_def)
    next
      case less: False
      with False have "length bs - 1 < g"
        by (cases bs) simp_all
      then have "(length bs - 1) div g = 0"
        by simp
      with False less "1.prems" show ?thesis
        by (subst groupsText.simps) (simp add: length_hexPairs min_def)
    qed
  qed
qed

lemma padMissingBytes_eq:
  "padMissingBytes index bpl builder = builder @ replicate (2 * nat (bpl - index)) space"
proof (induction index bpl builder rule: padMissingBytes.induct)
  case (1 index bpl builder)
  show ?case
  proof (cases "index < bpl")
    case True
    then have "nat (bpl - index) = Suc (nat (bpl - (index + 1)))" by linarith
    with True "1.IH" show ?thesis
      by (subst padMissingBytes.simps) (simp add: str_def space_def replicate_append_same)
  next
    case False
    then show ?thesis by (subst padMissingBytes.simps) simp
  qed
qed

lemma padMissingSeparators_eq:
  "padMissingSeparators index m builder = builder @ replicate (nat (m - index)) space"
proof (induction index m builder rule: padMissingSeparators.induct)
  case (1 index m builder)
  show ?case
  proof (cases "index < m")
    case True
    then have "nat (m - index) = Suc (nat (m - (index + 1)))" by linarith
    with True "1.IH" show ?thesis
      by (subst padMissingSeparators.simps) (simp add: str_def space_def replicate_append_same)
  next
    case False
    then show ?thesis by (subst padMissingSeparators.simps) simp
  qed
qed

lemma generateHexLine_tail:
  assumes g: "bytesPerGroup h \<noteq> 0"
    and loop: "hexGroups h (lineEndOf h offset) offset (fmt_0wX 8 offset @ str '': '') = Some (Inr s)"
  shows "\<exists>n. generateHexLine h offset = Some (Inr (s @ replicate n space @ [10]))"
proof -
  have a: "\<exists>n. xs @ [10] = xs @ replicate n space @ [10]" for xs :: gostring
    by (rule exI [of _ 0]) simp
  have b: "\<exists>n. xs @ replicate i space @ replicate j space @ [10] = xs @ replicate n space @ [10]"
    for xs :: gostring and i j
    by (rule exI [of _ "i + j"]) (simp add: replicate_add)
  show ?thesis
    using g loop a b
    by (simp add: generateHexLine_def Let_def lineEndOf_def go_div_def padMissingBytes_eq
        padMissingSeparators_eq str_def)
qed

lemma generateHexLine_panic:
  assumes loop: "hexGroups h (lineEndOf h offset) offset (fmt_0wX 8 offset @ str '': '') = Some (Inl e)"
  shows "generateHexLine h offset = Some (Inl e)"
  using loop by (simp add: generateHexLine_def Let_def lineEndOf_def)

lemma hexGroups_negative:
  assumes g: "0 < bytesPerGroup h" "bytesPerGroup h \<le> maxInt"
    and off: "minInt \<le> index" "index < 0" "index < lineEnd"
  shows "hexGroups h lineEnd index b = Some (Inl IndexOutOfRange)"
proof -
  have w: "wrap64 (index + bytesPerGroup h) = index + bytesPerGroup h"
    using g off by (intro wrap64_id) (simp_all add: minInt_def maxInt_def)
  have "index < (if lineEnd < index + bytesPerGroup h then lineEnd else index + bytesPerGroup h)"
    using g off by simp
  then show ?thesis
    using off by (subst hexGroups.simps) (simp add: Let_def w writeGroupBytes_negative)
qed

lemma go_div_nonneg:
  "0 \<le> a \<Longrightarrow> 0 < b \<Longrightarrow> a \<le> maxInt \<Longrightarrow> go_div a b = Inr (a div b)"
proof -
  assume a: "0 \<le> a" "0 < b" "a \<le> maxInt"
  then have "0 \<le> a div b"
    by (simp add: pos_imp_zdiv_nonneg_iff)
  moreover from a have "a div b \<le> a"
    by (metis div_0 int_div_le_self leI nle_le)
  ultimately have "0 \<le> a div b" "a div b \<le> a" .
  with a have "wrap64 (a div b) = a div b"
    by (intro wrap64_id) (simp_all add: minInt_def)
  with a show ?thesis
    by (cases "a = 0") (simp_all add: go_div_def)
qed

lemma lineEndOf_le: "lineEndOf h offset \<le> int (length (fileData h))"
  by (simp add: lineEndOf_def)

lemma lineEndOf_in_range:
  assumes "bytesPerLine h = 16" "0 \<le> offset" "offset + 16 \<le> maxInt"
  shows "lineEndOf h offset = min (offset + 16) (int (length (fileData h)))"
proof -
  have "wrap64 (offset + 16) = offset + 16"
    using assms by (intro wrap64_id) (simp_all add: minInt_def)
  with assms show ?thesis by (simp add: lineEndOf_def min_def)
qed

lemma generateHexLine_alt:
  "generateHexLine h offset =
     (case hexGroups h (lineEndOf h offset) offset (fmt_0wX 8 offset @ str '': '') of
        None \<Rightarrow> None
      | Some (Inl e) \<Rightarrow> Some (Inl e)
      | Some (Inr builder) \<Rightarrow> finishLine h offset (lineEndOf h offset) builder)"
  unfolding generateHexLine_def lineEndOf_def finishLine_def Let_def ..

lemma generateHexLine_exact:
  assumes bpl: "bytesPerLine h = 16"
    and g: "0 < bytesPerGroup h" "bytesPerGroup h \<le> 16"
    and off: "0 \<le> offset" "offset \<le> int (length (fileData h))" "offset + 32 \<le> maxInt"
  shows "generateHexLine h offset = Some (Inr (paddedHexLine h offset))"
proof -
  let ?fd = "fileData h" and ?g = "bytesPerGroup h"
  let ?bs = "take 16 (drop (nat offset) ?fd)"
  let ?b0 = "fmt_0wX 8 offset @ str '': ''"
  define lineEnd where "lineEnd = lineEndOf h offset"
  have le: "lineEnd = min (offset + 16) (int (length ?fd))"
    unfolding lineEnd_def using bpl off by (intro lineEndOf_in_range) simp_all
  have w1: "wrap64 (offset + 16) = offset + 16"
    using off by (intro wrap64_id) (simp_all add: minInt_def)
  have k: "int (length ?bs) = lineEnd - offset"
  proof (cases "offset + 16 \<le> int (length ?fd)")
    case True
    with off have "16 \<le> length ?fd - nat offset" by linarith
    with True le show ?thesis by (simp add: min_def)
  next
    case False
    with off have "length ?fd - nat offset \<le> 16" "int (length ?fd - nat offset) = int (length ?fd) - offset"
      by linarith+
    with False le show ?thesis by (simp add: min_def)
  qed
  have bs: "take (nat (lineEnd - offset)) (drop (nat offset) ?fd) = ?bs"
  proof (cases "offset + 16 \<le> int (length ?fd)")
    case True
    with le show ?thesis by simp
  next
    case False
    with le off have "nat (lineEnd - offset) = length (drop (nat offset) ?fd)"
      "length (drop (nat offset) ?fd) \<le> 16"
      by (simp_all add: min_def)
    then show ?thesis by simp
  qed
  have loop: "hexGroups h lineEnd offset ?b0 = Some (Inr (?b0 @ groupsText (nat ?g) ?bs))"
    using hexGroups_ok [of h lineEnd offset ?b0] g off le bs by (simp add: min_def split: if_splits)
  have w2: "wrap64 (lineEnd - offset) = lineEnd - offset"
    using off le by (intro wrap64_id) (auto simp: minInt_def min_def maxInt_def)
  have w3: "wrap64 (wrap64 (lineEnd - offset + ?g) - 1) = lineEnd - offset + ?g - 1"
    using off le g by (simp add: wrap64_def min_def maxInt_def)
  have w4: "wrap64 (wrap64 (16 + ?g) - 1) = 16 + ?g - 1"
    using g by (simp add: wrap64_def)
  have d1: "go_div (lineEnd - offset + ?g - 1) ?g = Inr ((lineEnd - offset + ?g - 1) div ?g)"
    using off le g by (intro go_div_nonneg) (auto simp: min_def maxInt_def)
  have d2: "go_div (16 + ?g - 1) ?g = Inr ((16 + ?g - 1) div ?g)"
    using g by (intro go_div_nonneg) (auto simp: maxInt_def)
  have T: "(16 + ?g - 1) div ?g = int ((16 + nat ?g - 1) div nat ?g)"
  proof -
    have "int (16 + nat ?g - 1) = 16 + ?g - 1" using g by linarith
    moreover have "int (nat ?g) = ?g" using g by simp
    ultimately show ?thesis by (simp only: zdiv_int)
  qed
  have G: "(lineEnd - offset + ?g - 1) div ?g = int ((length ?bs + nat ?g - 1) div nat ?g)"
  proof -
    have "int (length ?bs + nat ?g - 1) = lineEnd - offset + ?g - 1" using g k by linarith
    moreover have "int (nat ?g) = ?g" using g by simp
    ultimately show ?thesis by (simp only: zdiv_int)
  qed
  have "16 + nat ?g - 1 \<le> 31" "length ?bs + nat ?g - 1 \<le> 31"
    using g by simp_all
  then have TG: "(16 + nat ?g - 1) div nat ?g \<le> 31" "(length ?bs + nat ?g - 1) div nat ?g \<le> 31"
    by (blast intro: order_trans [OF div_le_dividend])+
  have w5: "wrap64 (int ((16 + nat ?g - 1) div nat ?g) - int ((length ?bs + nat ?g - 1) div nat ?g))
      = int ((16 + nat ?g - 1) div nat ?g) - int ((length ?bs + nat ?g - 1) div nat ?g)"
    using TG by (intro wrap64_id) (simp_all add: minInt_def maxInt_def)
  show ?thesis
  proof (cases "lineEnd - offset < 16")
    case True
    with k have m: "nat (16 - (lineEnd - offset)) = 16 - length ?bs" by linarith
    have nd: "nat (int a - int b) = a - b" for a b :: nat by linarith
    show ?thesis
      using True
      apply (simp only: generateHexLine_alt lineEnd_def [symmetric] loop option.case sum.case)
      apply (simp only: finishLine_def Let_def bpl w2 w3 w4 d1 d2 True if_True T G w5 sum.case
          padMissingBytes_eq padMissingSeparators_eq)
      apply (simp add: paddedHexLine_def Let_def m nd del: of_nat_diff)
      done
  next
    case False
    with k have "length ?bs = 16" by simp
    then show ?thesis
      using False
      apply (simp only: generateHexLine_alt lineEnd_def [symmetric] loop option.case sum.case)
      apply (simp only: finishLine_def Let_def bpl w2 False if_False)
      apply (simp add: paddedHexLine_def Let_def)
      done
  qed
qed

lemma length_paddedHexLine:
  assumes g: "0 < bytesPerGroup h"
    and off: "0 \<le> offset" "offset < int (length (fileData h))"
  shows "length (paddedHexLine h offset) =
    length (fmt_0wX 8 offset) + 34 + (16 + nat (bytesPerGroup h) - 1) div nat (bytesPerGroup h)"
proof -
  define g' where "g' = nat (bytesPerGroup h)"
  define bs where "bs = take 16 (drop (nat offset) (fileData h))"
  define k where "k = length bs"
  define a where "a = (k - 1) div g'"
  define T where "T = (16 + g' - 1) div g'"
  have g0: "0 < g'" using g by (simp add: g'_def)
  have k: "1 \<le> k" "k \<le> 16" using off by (simp_all add: k_def bs_def)
  have "k + g' - 1 = (k - 1) + g'" using k by simp
  then have G: "(k + g' - 1) div g' = a + 1"
    unfolding a_def using g0 by (metis div_add_self2 less_numeral_extra(3))
  have "k + g' - 1 \<le> 16 + g' - 1" using k by simp
  then have "(k + g' - 1) div g' \<le> T"
    unfolding T_def by (rule div_le_mono)
  with G have TG: "a + 1 \<le> T" by simp
  have L: "length (paddedHexLine h offset) =
      length (fmt_0wX 8 offset) + 2 + length (groupsText g' bs) + 2 * (16 - k) + (T - (a + 1)) + 1"
    unfolding paddedHexLine_def Let_def g'_def [symmetric] bs_def [symmetric] k_def [symmetric]
      T_def [symmetric] G
    by (simp add: str_def)
  have "length (groupsText g' bs) = 2 * k + a"
    using g0 by (simp add: length_groupsText k_def a_def)
  with L k TG have "length (paddedHexLine h offset) = length (fmt_0wX 8 offset) + 34 + T"
    by linarith
  then show ?thesis
    by (simp add: T_def g'_def)
qed

lemma replicate_numeral: "replicate (numeral k) x = x # replicate (pred_numeral k) x"
  by (simp add: numeral_eq_Suc)

lemmas hex_eval =
  generateHexLine_def hexGroups.simps writeGroupBytes.simps padMissingBytes.simps
  padMissingSeparators.simps hexDigits.simps wrap64_def go_div_def fmt_0wX_def str_def
  udigits_def space_def Let_def replicate_numeral

lemma despace_newline: "despace (str [CHR 0x0A]) = str [CHR 0x0A]"
  by (simp add: despace_def str_def space_def)

lemma despace_line:
  assumes g: "0 < bytesPerGroup h" "bytesPerGroup h \<le> 16"
    and off: "minInt \<le> offset"
    and len: "int (length (fileData h)) + 16 \<le> maxInt"
  shows "map_option (map_sum id despace) (generateHexLine h offset) =
    (if offset < lineEndOf h offset \<and> offset < 0 then Some (Inl IndexOutOfRange)
     else Some (Inr (despace (fmt_0wX 8 offset @ str '': '') @
             hexPairs (take (nat (lineEndOf h offset - offset)) (drop (nat offset) (fileData h))) @
             str [CHR 0x0A])))"
proof -
  let ?b0 = "fmt_0wX 8 offset @ str '': ''"
  let ?le = "lineEndOf h offset"
  have g0: "bytesPerGroup h \<noteq> 0" using g by simp
  have nl: "str [CHR 0x0A] = [10]" by (simp add: str_def)
  consider (stop) "\<not> offset < ?le" | (neg) "offset < ?le" "offset < 0" | (run) "offset < ?le" "0 \<le> offset"
    by linarith
  then show ?thesis
  proof cases
    case stop
    then have "hexGroups h ?le offset ?b0 = Some (Inr ?b0)"
      by (rule hexGroups_done)
    from generateHexLine_tail [OF g0 this] obtain n where
      "generateHexLine h offset = Some (Inr (?b0 @ replicate n space @ [10]))" ..
    with stop show ?thesis
      using despace_newline by (simp add: despace_append despace_replicate nl)
  next
    case neg
    have "hexGroups h ?le offset ?b0 = Some (Inl IndexOutOfRange)"
      using g off neg by (intro hexGroups_negative) (simp_all add: maxInt_def)
    then have "generateHexLine h offset = Some (Inl IndexOutOfRange)"
      by (rule generateHexLine_panic)
    with neg show ?thesis by simp
  next
    case run
    let ?bs = "take (nat (?le - offset)) (drop (nat offset) (fileData h))"
    have "?le + bytesPerGroup h \<le> maxInt"
      using lineEndOf_le [of h offset] g len by linarith
    then have "hexGroups h ?le offset ?b0 =
        Some (Inr (?b0 @ groupsText (nat (bytesPerGroup h)) ?bs))"
      using g run by (intro hexGroups_ok lineEndOf_le) simp_all
    from generateHexLine_tail [OF g0 this] obtain n where
      "generateHexLine h offset =
        Some (Inr ((?b0 @ groupsText (nat (bytesPerGroup h)) ?bs) @ replicate n space @ [10]))" ..
    moreover have "despace (groupsText (nat (bytesPerGroup h)) ?bs) = hexPairs ?bs"
      using g by (intro despace_groupsText) simp
    ultimately show ?thesis
      using run despace_newline by (simp add: despace_append despace_replicate nl)
  qed
qed


lemma hexGroups_cong_Some:
  assumes "hexGroups h l i b = Some y"
    and "fileData h' = fileData h" and "bytesPerGroup h' = bytesPerGroup h"
  shows "hexGroups h' l i b = Some y"
proof -
  have "\<forall>h'. fileData h' = fileData h \<longrightarrow> bytesPerGroup h' = bytesPerGroup h \<longrightarrow>
      hexGroups h' l i b = Some y"
  proof (rule hexGroups.raw_induct [OF _ assms(1)], goal_cases)
    case (1 f h l i b y)
    show ?case
    proof (intro allI impI)
      fix h' :: HexDumpApp
      assume fd: "fileData h' = fileData h" and g: "bytesPerGroup h' = bytesPerGroup h"
      show "hexGroups h' l i b = Some y"
        using 1(2) 1(1) fd g
        by (subst hexGroups.simps) (auto simp: Let_def split: if_splits sum.splits)
    qed
  qed
  with assms(2,3) show ?thesis by blast
qed

lemma hexGroups_cong:
  assumes "fileData h' = fileData h" and "bytesPerGroup h' = bytesPerGroup h"
  shows "hexGroups h' l i b = hexGroups h l i b"
proof (cases "hexGroups h l i b")
  case (Some y)
  from hexGroups_cong_Some [OF Some assms] Some show ?thesis by simp
next
  case None
  show ?thesis
  proof (cases "hexGroups h' l i b")
    case None': None
    with None show ?thesis by simp
  next
    case (Some y)
    from hexGroups_cong_Some [OF Some assms(1) [symmetric] assms(2) [symmetric]] None
    show ?thesis by simp
  qed
qed

lemma byte_enum: "(b :: byte) \<in> set (map of_nat [0..<256])"
proof -
  have "unat b < 2 ^ LENGTH(8)" by (rule unsigned_less)
  then have "unat b \<in> set [0..<256]" by simp
  then have "of_nat (unat b) \<in> (of_nat :: nat \<Rightarrow> byte) ` set [0..<256]" by (rule imageI)
  then show ?thesis by simp
qed

lemma all_bytes: "list_all P (map of_nat [0..<256]) \<Longrightarrow> P (b :: byte)"
  using byte_enum [of b] unfolding list_all_iff by blast

lemma latin1_two_bytes:
  "160 \<le> (b :: byte) \<longrightarrow>
     EncodeRune (uint b) = [0xC0 OR drop_bit 6 b, 0x80 OR (b AND 0x3F)] \<and>
     first (0xC0 OR drop_bit 6 b) = 0x02 \<and>
     0x80 \<le> (0x80 OR (b AND 0x3F)) \<and> (0x80 OR (b AND 0x3F)) \<le> 0xBF \<and>
     push_bit 6 (uint ((0xC0 OR drop_bit 6 b) AND 0x1F)) OR uint ((0x80 OR (b AND 0x3F)) AND 0x3F) = uint b"
  by (rule all_bytes) code_simp

lemma DecodeRune_ascii: "b < 0x80 \<Longrightarrow> DecodeRune (b # rest) = (uint b, 1)"
  by (simp add: DecodeRune_def first_def Let_def)

lemma DecodeRune_two:
  assumes "first p0 = 0x02" and "0x80 \<le> p1" and "p1 \<le> 0xBF"
  shows "DecodeRune (p0 # p1 # rest) = (push_bit 6 (uint (p0 AND 0x1F)) OR uint (p1 AND 0x3F), 2)"
  using assms by (simp add: DecodeRune_def acceptRanges_def Let_def not_less)

lemma EncodeRune_ascii: "b < 0x80 \<Longrightarrow> EncodeRune (uint b) = [b]"
  for b :: byte
  by (simp add: EncodeRune_def word_less_def)

lemma EncodeRune_dot: "EncodeRune 46 = str ''.''"
  by (simp add: EncodeRune_def str_def)

lemma latin1Loop_eq:
  "latin1Loop data builder = builder @ concat (map (\<lambda>b. EncodeRune (latin1Rune b)) data)"
proof (induction data arbitrary: builder)
  case Nil
  then show ?case by simp
next
  case (Cons b data)
  have "unat b < 2 ^ LENGTH(8)" by (rule unsigned_less)
  then have le: "b \<le> 255" by (simp add: word_le_nat_alt)
  have "b \<le> 126 \<Longrightarrow> b < 0x80"
    by (simp add: word_le_nat_alt word_less_nat_alt)
  then show ?case
    using le by (simp add: Cons.IH latin1Rune_def EncodeRune_ascii EncodeRune_dot)
qed

lemma stringRunes_Nil [simp]: "stringRunes [] = []"
  by (subst stringRunes.simps) simp

lemma DecodeRune_latin1:
  "DecodeRune (EncodeRune (latin1Rune b) @ rest) = (latin1Rune b, length (EncodeRune (latin1Rune b)))"
proof -
  consider (ascii) "32 \<le> b" "b \<le> 126" | (high) "160 \<le> b"
    | (other) "\<not> ((32 \<le> b \<and> b \<le> 126) \<or> 160 \<le> b)"
    by blast
  then show ?thesis
  proof cases
    case ascii
    then have "b < 0x80" by (simp add: word_le_nat_alt word_less_nat_alt)
    with ascii show ?thesis
      by (simp add: latin1Rune_def EncodeRune_ascii DecodeRune_ascii)
  next
    case high
    then have "\<not> b \<le> 126" by (simp add: word_le_nat_alt)
    with high latin1_two_bytes [of b] show ?thesis
      by (simp add: latin1Rune_def DecodeRune_two)
  next
    case other
    then have "latin1Rune b = 46"
      unfolding latin1Rune_def by (rule if_not_P)
    moreover have "DecodeRune (46 # rest) = (uint (46 :: byte), 1)"
      by (rule DecodeRune_ascii) simp
    ultimately show ?thesis
      by (simp add: EncodeRune_dot str_def)
  qed
qed

lemma stringRunes_latin1:
  "stringRunes (concat (map (\<lambda>b. EncodeRune (latin1Rune b)) data)) = map latin1Rune data"
proof (induction data)
  case Nil
  then show ?case by simp
next
  case (Cons b data)
  have ne: "EncodeRune r \<noteq> []" for r
    by (simp add: EncodeRune_def encode3_def)
  show ?case
    by (subst stringRunes.simps) (simp add: ne DecodeRune_latin1 Cons.IH)
qed

lemma little_endian_unit:
  "(ucast (lo :: byte) :: 16 word) OR push_bit 8 (ucast (hi :: byte)) =
   word_of_nat (unat lo + 256 * unat hi)"
proof -
  have "(ucast lo :: 16 word) AND push_bit 8 (ucast hi) = 0"
    by (auto simp: bit_eq_iff bit_simps dest: bit_imp_le_length)
  then have "(ucast lo :: 16 word) OR push_bit 8 (ucast hi) = ucast lo + push_bit 8 (ucast hi)"
    by (rule disjunctive_add_eq_or [symmetric])
  also have "\<dots> = word_of_nat (unat lo + 256 * unat hi)"
    by (simp add: push_bit_eq_mult)
  finally show ?thesis .
qed

lemma utf16_Decode_single: "utf16_Decode [u] = [unitRune u]"
  by (auto simp: unitRune_def not_less not_le)

lemma utf16Loop_eq:
  "index \<le> length data \<Longrightarrow> utf16Loop L data index builder = builder @ utf16Text L (drop index data)"
proof (induction L data index builder rule: utf16Loop.induct)
  case (1 L data index builder)
  show ?case
  proof (cases "index < length data")
    case False
    with "1.prems" show ?thesis
      by (subst utf16Loop.simps) simp
  next
    case True
    show ?thesis
    proof (cases "index + 1 \<ge> length data")
      case last: True
      with True have "drop index data = [data ! index]"
        by (metis Cons_nth_drop_Suc Suc_eq_plus1 drop_all)
      with True last show ?thesis
        by (subst utf16Loop.simps) simp
    next
      case pair: False
      then have d: "drop index data = data ! index # data ! (index + 1) # drop (index + 2) data"
        using True by (simp add: Cons_nth_drop_Suc)
      define u where "u = (ucast (data ! index) :: 16 word) OR push_bit 8 (ucast (data ! (index + 1)))"
      define b' where "b' =
        (if length (utf16_Decode [u]) > 0 \<and> IsPrint L (utf16_Decode [u] ! 0)
         then builder @ EncodeRune (utf16_Decode [u] ! 0) else builder @ str ''.'')"
      have le: "index + 2 \<le> length data" using pair by simp
      have IH: "utf16Loop L data (index + 2) b' = b' @ utf16Text L (drop (index + 2) data)"
        unfolding b'_def u_def by (rule "1.IH" [OF True pair refl refl refl refl le])
      have step: "utf16Loop L data index builder = utf16Loop L data (index + 2) b'"
        using True pair by (subst utf16Loop.simps) (simp only: Let_def b'_def u_def if_True if_False)
      have b': "b' = builder @ emit L (unitRune u)"
        by (simp add: b'_def utf16_Decode_single emit_def del: utf16_Decode.simps)
      have t: "utf16Text L (drop index data) =
          emit L (unitRune u) @ utf16Text L (drop (index + 2) data)"
        unfolding d u_def little_endian_unit by simp
      show ?thesis
        using IH unfolding step b' t by simp
    qed
  qed
qed

lemma utf16Text_eq:
  "utf16Text L data =
     concat (map (\<lambda>u. emit L (unitRune u)) (codeUnits data)) @
     (if odd (length data) then str ''.'' else [])"
  by (induction L data rule: utf16Text.induct) simp_all

lemma dotLoop_eq: "dotLoop data builder = builder @ replicate (length data) (of_char CHR ''.'')"
  by (induction data arbitrary: builder) (simp_all add: str_def replicate_append_same)

lemma DecodeRune_size: "s \<noteq> [] \<Longrightarrow> 1 \<le> snd (DecodeRune s) \<and> snd (DecodeRune s) \<le> length s"
proof -
  assume ne: "s \<noteq> []"
  have two: "\<not> 0xF0 \<le> first p \<Longrightarrow> 2 \<le> unat (first p AND 7)" for p
    unfolding first_def by (simp split: if_splits)
  have n: "1 \<le> length s" using ne by (cases s) simp_all
  show ?thesis
    using n two [of "s ! 0"]
    by (auto simp: DecodeRune_def Let_def not_less)
qed

lemma printableLoop_eq:
  "printableLoop L s builder = builder @ concat (map (emit L) (stringRunes s))"
proof (induction L s builder rule: printableLoop.induct)
  case (1 L s builder)
  show ?case
  proof (cases "s = []")
    case True
    then show ?thesis by (subst printableLoop.simps) simp
  next
    case False
    obtain r sz where d: "DecodeRune s = (r, sz)" by (cases "DecodeRune s")
    have IH: "printableLoop L (drop sz s) (if IsPrint L r then builder @ EncodeRune r else builder @ str ''.'') =
        (if IsPrint L r then builder @ EncodeRune r else builder @ str ''.'') @
        concat (map (emit L) (stringRunes (drop sz s)))"
      by (rule "1.IH" [OF False d [symmetric]])
    have r: "stringRunes s = r # stringRunes (drop sz s)"
      using False d by (subst stringRunes.simps) simp
    show ?thesis
      using False d IH
      by (subst printableLoop.simps) (simp add: r emit_def)
  qed
qed

lemma utf8Loop_eq: "utf8Loop L data builder = builder @ utf8Text L data"
proof (induction L data builder rule: utf8Loop.induct)
  case (1 L data builder)
  show ?case
  proof (cases "data = []")
    case True
    then show ?thesis
      by (subst utf8Loop.simps, subst utf8Text.simps) simp
  next
    case False
    then have pos: "0 < length data" by simp
    obtain r sz where d: "DecodeRune data = (r, sz)" by (cases "DecodeRune data")
    show ?thesis
    proof (cases "r = RuneError \<and> sz = 1")
      case True
      from "1.IH"(1) [OF pos d [symmetric] True] False d True show ?thesis
        by (subst utf8Loop.simps, subst utf8Text.simps) simp
    next
      case ok: False
      from "1.IH"(2) [OF pos d [symmetric] ok] False d ok show ?thesis
        by (subst utf8Loop.simps, subst utf8Text.simps) (auto simp: emit_def)
    qed
  qed
qed

lemma generateHexLine_list_alt:
  "generateHexLine_list h offset =
     (case generateHexLine h offset of
        None \<Rightarrow> None
      | Some (Inl e) \<Rightarrow> Some (Inl e)
      | Some (Inr builder) \<Rightarrow> Some (Inr (TrimRight builder (str [CHR 0x0A, CHR '' '']))))"
  unfolding generateHexLine_list_def generateHexLine_def Let_def
  by (simp split: option.split sum.split)

lemma udigits_nth_not_newline: "k < 16 \<Longrightarrow> udigits ! k \<noteq> 10"
proof -
  assume "k < 16"
  then have k: "k \<in> set [0..<16]" by simp
  have "list_all (\<lambda>k. udigits ! k \<noteq> 10) [0..<16]"
    by code_simp
  with k show ?thesis
    unfolding list_all_iff by blast
qed

lemma cutset_eq: "set (str [CHR 0x0A, CHR '' '']) = {10, space}"
  by (simp add: str_def space_def)

lemma last_hexPairs:
  "bs \<noteq> [] \<Longrightarrow> hexPairs bs \<noteq> [] \<and> last (hexPairs bs) \<notin> {10, space}"
proof (induction bs)
  case Nil
  then show ?case by simp
next
  case (Cons b bs)
  have "unat b mod 16 < 16" by simp
  then have d: "udigits ! (unat b mod 16) \<noteq> space" "udigits ! (unat b mod 16) \<noteq> 10"
    by (simp_all add: udigits_nth_not_space udigits_nth_not_newline)
  show ?case
  proof (cases "bs = []")
    case True
    with d show ?thesis by (simp add: hexPairs_Cons fmt_02X_byte)
  next
    case False
    with Cons.IH show ?thesis by (simp add: hexPairs_Cons fmt_02X_byte)
  qed
qed

lemma last_groupsText:
  "0 < g \<Longrightarrow> bs \<noteq> [] \<Longrightarrow> groupsText g bs \<noteq> [] \<and> last (groupsText g bs) \<notin> {10, space}"
proof (induction g bs rule: groupsText.induct)
  case (1 g bs)
  from "1.prems" have tk: "take g bs \<noteq> []" by simp
  show ?case
  proof (cases "g < length bs")
    case True
    then have "drop g bs \<noteq> []" by simp
    with "1.IH" "1.prems" have "groupsText g (drop g bs) \<noteq> [] \<and> last (groupsText g (drop g bs)) \<notin> {10, space}"
      by simp
    with True "1.prems" show ?thesis
      by (subst (1 2) groupsText.simps) simp
  next
    case False
    then have "drop g bs = []" by simp
    with False "1.prems" last_hexPairs [OF tk] show ?thesis
      by (subst (1 2) groupsText.simps) simp
  qed
qed

lemma TrimRight_padding:
  assumes "a \<noteq> []" and "last a \<notin> set cutset" and "set p \<subseteq> set cutset"
  shows "TrimRight (a @ p) cutset = a"
proof -
  from assms(3) have "dropWhile (\<lambda>c. c \<in> set cutset) (rev p @ rev a) = dropWhile (\<lambda>c. c \<in> set cutset) (rev a)"
    by (intro dropWhile_append2) auto
  moreover from assms(1,2) have "dropWhile (\<lambda>c. c \<in> set cutset) (rev a) = rev a"
    by (cases a rule: rev_cases) simp_all
  ultimately show ?thesis
    by (simp add: TrimRight_def)
qed

lemma TrimRight_paddedHexLine:
  assumes "0 < bytesPerGroup h" and "0 \<le> offset" and "offset < int (length (fileData h))"
  shows "TrimRight (paddedHexLine h offset) (str [CHR 0x0A, CHR '' '']) = trimmedHexLine h offset"
proof -
  let ?g = "nat (bytesPerGroup h)"
  let ?bs = "take 16 (drop (nat offset) (fileData h))"
  from assms have "?bs \<noteq> []" by simp
  with assms(1) have gt: "groupsText ?g ?bs \<noteq> []" "last (groupsText ?g ?bs) \<notin> {10, space}"
    using last_groupsText [of ?g ?bs] by simp_all
  have "paddedHexLine h offset = trimmedHexLine h offset @
      (replicate (2 * (16 - length ?bs)) space @
       replicate ((16 + ?g - 1) div ?g - (length ?bs + ?g - 1) div ?g) space @ str [CHR 0x0A])"
    by (simp add: paddedHexLine_def trimmedHexLine_def Let_def)
  moreover have "TrimRight (trimmedHexLine h offset @
      (replicate (2 * (16 - length ?bs)) space @
       replicate ((16 + ?g - 1) div ?g - (length ?bs + ?g - 1) div ?g) space @ str [CHR 0x0A]))
      (str [CHR 0x0A, CHR '' '']) = trimmedHexLine h offset"
  proof (rule TrimRight_padding)
    show "trimmedHexLine h offset \<noteq> []" using gt by (simp add: trimmedHexLine_def)
    show "last (trimmedHexLine h offset) \<notin> set (str [CHR 0x0A, CHR '' ''])"
      using gt unfolding cutset_eq by (simp add: trimmedHexLine_def)
    show "set (replicate (2 * (16 - length ?bs)) space @
       replicate ((16 + ?g - 1) div ?g - (length ?bs + ?g - 1) div ?g) space @ str [CHR 0x0A])
      \<subseteq> set (str [CHR 0x0A, CHR '' ''])"
      unfolding cutset_eq by (auto simp: str_def)
  qed
  ultimately show ?thesis by simp
qed

lemma length_trimmedHexLine:
  assumes "0 < bytesPerGroup h" and "0 \<le> offset" and "offset < int (length (fileData h))"
  shows "length (trimmedHexLine h offset) =
    length (fmt_0wX 8 offset) + 2 + 2 * length (take 16 (drop (nat offset) (fileData h))) +
    (length (take 16 (drop (nat offset) (fileData h))) - 1) div nat (bytesPerGroup h)"
  using assms by (simp add: trimmedHexLine_def length_groupsText str_def del: length_take)

lemma generateHexLine_list_exact:
  assumes bpl: "bytesPerLine h = 16"
    and g: "0 < bytesPerGroup h" "bytesPerGroup h \<le> 16"
    and off: "0 \<le> offset" "offset < int (length (fileData h))" "offset + 32 \<le> maxInt"
  shows "generateHexLine_list h offset = Some (Inr (trimmedHexLine h offset))"
proof -
  have "generateHexLine h offset = Some (Inr (paddedHexLine h offset))"
    using assms by (intro generateHexLine_exact) simp_all
  then show ?thesis
    using TrimRight_paddedHexLine [OF g(1) off(1,2)]
    by (simp add: generateHexLine_list_alt)
qed





lemma bytesToGB18030_eq:
  "bytesToGB18030 L data =
     (case GB18030_Bytes L data of
        None \<Rightarrow> replicate (length data) (of_char CHR ''.'')
      | Some result \<Rightarrow> concat (map (emit L) (stringRunes result)))"
  by (simp add: bytesToGB18030_def dotLoop_eq printableLoop_eq split: option.split)

lemma stringRunes_replaced:
  "stringRunes (EncodeRune 0xFFFD @ str ''0'' @ EncodeRune 0xFFFD) = [0xFFFD, 0x30, 0xFFFD]"
  by (simp add: EncodeRune_def encode3_def MaxRune_def RuneError_def str_def stringRunes.simps DecodeRune_def first_def
      acceptRanges_def Let_def)

section \<open>Claims about generateHexLine\<close>

text \<open>
  Claim C1, as the code has it. For a 16-byte line, a group size of 1, 2, 4, 8 or 16 and an
  offset inside the buffer and below \<open>2 ^ 32\<close>, \<open>generateHexLine\<close> of
  \<open>src/hexdump.go\<close> returns the padded line: a short last line gets two spaces for each
  missing byte and one for each missing group separator, and every line, short or full,
  has the same width of \<open>10 + 32 + (16 / bytesPerGroup - 1)\<close> characters and the newline.
  The \<open>generateHexLine\<close> of the list revision (\<open>src/unnamed/part_001\<close>) builds the same
  line and returns it without the padding and the newline: the address and the groups, of
  \<open>10 + 2 k + (k - 1) / bytesPerGroup\<close> characters for a line of \<open>k\<close> bytes, so that a short
  line is shorter than a full one there.
\<close>

theorem hex_line_width:
  assumes "bytesPerLine h = 16"
    and "bytesPerGroup h \<in> {1, 2, 4, 8, 16}"
    and "0 \<le> offset" and "offset < int (length (fileData h))" and "offset < 2 ^ 32"
  shows "generateHexLine h offset = Some (Inr (paddedHexLine h offset)) \<and>
         length (paddedHexLine h offset) = 10 + 32 + (nat (16 div bytesPerGroup h) - 1) + 1 \<and>
         generateHexLine_list h offset = Some (Inr (trimmedHexLine h offset)) \<and>
         length (trimmedHexLine h offset) =
           10 + 2 * length (take 16 (drop (nat offset) (fileData h))) +
           (length (take 16 (drop (nat offset) (fileData h))) - 1) div nat (bytesPerGroup h)"
proof -
  from assms(2) have g: "0 < bytesPerGroup h" "bytesPerGroup h \<le> 16"
    and T: "(16 + nat (bytesPerGroup h) - 1) div nat (bytesPerGroup h) = nat (16 div bytesPerGroup h)"
      "1 \<le> nat (16 div bytesPerGroup h)"
    by auto
  from assms have nw: "offset + 32 \<le> maxInt"
    by (simp add: maxInt_def)
  with assms g have a: "generateHexLine h offset = Some (Inr (paddedHexLine h offset))"
    by (intro generateHexLine_exact) simp_all
  from assms g nw have b: "generateHexLine_list h offset = Some (Inr (trimmedHexLine h offset))"
    by (intro generateHexLine_list_exact) simp_all
  have l: "length (fmt_0wX 8 offset) = 8"
    using assms by (intro length_fmt_08X) simp_all
  have c: "length (paddedHexLine h offset) = 10 + 32 + (nat (16 div bytesPerGroup h) - 1) + 1"
    using length_paddedHexLine [OF g(1) assms(3,4)] T l by simp
  have d: "length (trimmedHexLine h offset) =
           10 + 2 * length (take 16 (drop (nat offset) (fileData h))) +
           (length (take 16 (drop (nat offset) (fileData h))) - 1) div nat (bytesPerGroup h)"
    using length_trimmedHexLine [OF g(1) assms(3,4)] l by simp
  from a b c d show ?thesis by blast
qed

theorem hex_line_width_witness:
  "generateHexLine helloApp 0 = Some (Inr (paddedHexLine helloApp 0)) \<and>
   length (paddedHexLine helloApp 0) = 58 \<and>
   generateHexLine_list helloApp 0 = Some (Inr (trimmedHexLine helloApp 0)) \<and>
   length (trimmedHexLine helloApp 0) = 24"
  using hex_line_width [of helloApp 0]
  by (simp add: helloApp_def NewHexDumpApp_def)

text \<open>
  The bound on the offset is needed: \<open>%08X\<close> prints at least eight digits, not at most.
  In a buffer of more than 4 GiB the line at offset \<open>2 ^ 32\<close> has a nine-digit address
  and is one character wider than the line at offset 0. In the list revision a full line
  of single bytes is 57 characters wide and the line of the five bytes of \<open>Hello\<close> 24.
\<close>

theorem hex_line_width_counterexample:
  "map_option (map_sum id length) (generateHexLine hugeApp 0) = Some (Inr 58) \<and>
   map_option (map_sum id length) (generateHexLine hugeApp 4294967296) = Some (Inr 59) \<and>
   map_option (map_sum id length) (generateHexLine_list fullApp 0) = Some (Inr 57) \<and>
   map_option (map_sum id length) (generateHexLine_list helloApp 0) = Some (Inr 24)"
proof -
  have g: "bytesPerLine hugeApp = 16" "0 < bytesPerGroup hugeApp" "bytesPerGroup hugeApp \<le> 16"
    by (simp_all add: hugeApp_def NewHexDumpApp_def)
  have len: "int (length (fileData hugeApp)) = 4294967297"
    by (simp add: hugeApp_def NewHexDumpApp_def)
  have a: "generateHexLine hugeApp 0 = Some (Inr (paddedHexLine hugeApp 0))"
    using g len by (intro generateHexLine_exact) (simp_all add: maxInt_def)
  have b: "generateHexLine hugeApp 4294967296 = Some (Inr (paddedHexLine hugeApp 4294967296))"
    using g len by (intro generateHexLine_exact) (simp_all add: maxInt_def)
  have la: "length (paddedHexLine hugeApp 0) = 58"
    using length_paddedHexLine [of hugeApp 0] g len length_fmt_08X [of 0]
    by (simp add: hugeApp_def NewHexDumpApp_def)
  have d: "hexDigits 4294967296 = str ''100000000''"
    by (simp add: hexDigits.simps udigits_def str_def)
  have lb: "length (paddedHexLine hugeApp 4294967296) = 59"
    using length_paddedHexLine [of hugeApp 4294967296] g len
    by (simp add: hugeApp_def NewHexDumpApp_def fmt_0wX_def d str_def)
  have f: "bytesPerLine fullApp = 16" "0 < bytesPerGroup fullApp" "bytesPerGroup fullApp \<le> 16"
    "bytesPerGroup fullApp = 1" "int (length (fileData fullApp)) = 16"
    by (simp_all add: fullApp_def NewHexDumpApp_def)
  have c: "generateHexLine_list fullApp 0 = Some (Inr (trimmedHexLine fullApp 0))"
    using f by (intro generateHexLine_list_exact) (simp_all add: maxInt_def)
  have lc: "length (trimmedHexLine fullApp 0) = 57"
    using length_trimmedHexLine [of fullApp 0] f length_fmt_08X [of 0]
    by (simp add: fullApp_def NewHexDumpApp_def)
  have e: "bytesPerLine helloApp = 16" "0 < bytesPerGroup helloApp" "bytesPerGroup helloApp \<le> 16"
    "bytesPerGroup helloApp = 1" "int (length (fileData helloApp)) = 5"
    by (simp_all add: helloApp_def NewHexDumpApp_def)
  have h: "generateHexLine_list helloApp 0 = Some (Inr (trimmedHexLine helloApp 0))"
    using e by (intro generateHexLine_list_exact) (simp_all add: maxInt_def)
  have lh: "length (trimmedHexLine helloApp 0) = 24"
    using length_trimmedHexLine [of helloApp 0] e length_fmt_08X [of 0]
    by (simp add: helloApp_def NewHexDumpApp_def)
  show ?thesis
    by (simp add: a b la lb c lc h lh)
qed

text \<open>
  Claim C2, as the code has it. On the five bytes \<open>48 65 6C 6C 6F\<close> at offset 0, with
  groups of one byte and 16 bytes per line, \<open>generateHexLine\<close> returns the address, the
  five pairs, 33 spaces of padding and a newline: 58 characters, the last of which is the
  newline.
\<close>

theorem hello_hex_line:
  assumes "fileData h = [0x48, 0x65, 0x6C, 0x6C, 0x6F]"
    and "bytesPerGroup h = 1" and "bytesPerLine h = 16"
  shows "generateHexLine h 0 =
    Some (Inr (str ''00000000: 48 65 6C 6C 6F'' @ replicate 33 space @ str [CHR 0x0A]))"
  using assms by (simp add: hex_eval)

theorem hello_hex_line_witness:
  "generateHexLine helloApp 0 =
    Some (Inr (str ''00000000: 48 65 6C 6C 6F'' @ replicate 33 space @ str [CHR 0x0A]))"
  using hello_hex_line [of helloApp]
  by (simp add: helloApp_def NewHexDumpApp_def)

text \<open>The same line does not end in 34 spaces.\<close>

theorem hello_hex_line_counterexample:
  "generateHexLine helloApp 0 \<noteq>
    Some (Inr (str ''00000000: 48 65 6C 6C 6F'' @ replicate 34 space))"
  by (simp add: helloApp_def NewHexDumpApp_def hex_eval)

text \<open>
  Claim C8. Changing the group size alone, between any two of 1, 2, 4, 8 and 16, does not
  change the line once its spaces are removed: the address and the hexadecimal pairs of the
  same bytes, or the same panic. This holds for every offset a Go \<open>int\<close> can hold and
  every buffer, whose length leaves room for one more line below \<open>maxInt\<close>.
\<close>

theorem grouping_keeps_bytes:
  assumes "g1 \<in> {1, 2, 4, 8, 16}" and "g2 \<in> {1, 2, 4, 8, 16}"
    and "minInt \<le> offset" and "offset \<le> maxInt"
    and "int (length (fileData h)) + 16 \<le> maxInt"
  shows "map_option (map_sum id despace) (generateHexLine (h\<lparr>bytesPerGroup := g1\<rparr>) offset) =
         map_option (map_sum id despace) (generateHexLine (h\<lparr>bytesPerGroup := g2\<rparr>) offset)"
proof -
  have "map_option (map_sum id despace) (generateHexLine (h\<lparr>bytesPerGroup := g\<rparr>) offset) =
    (if offset < lineEndOf h offset \<and> offset < 0 then Some (Inl IndexOutOfRange)
     else Some (Inr (despace (fmt_0wX 8 offset @ str '': '') @
             hexPairs (take (nat (lineEndOf h offset - offset)) (drop (nat offset) (fileData h))) @
             str [CHR 0x0A])))"
    if "g \<in> {1, 2, 4, 8, 16}" for g
  proof -
    from that have "0 < g" "g \<le> 16" by auto
    then show ?thesis
      using despace_line [of "h\<lparr>bytesPerGroup := g\<rparr>" offset] assms(3,5)
      by (simp add: lineEndOf_def)
  qed
  from this [OF assms(1)] this [OF assms(2)] show ?thesis by simp
qed

theorem grouping_keeps_bytes_witness:
  "map_option (map_sum id despace) (generateHexLine (helloApp\<lparr>bytesPerGroup := 1\<rparr>) 0) =
   map_option (map_sum id despace) (generateHexLine (helloApp\<lparr>bytesPerGroup := 4\<rparr>) 0)"
  using grouping_keeps_bytes [of 1 4 0 helloApp]
  by (simp add: helloApp_def NewHexDumpApp_def minInt_def maxInt_def)




text \<open>
  Claim C9. The three formatting functions read four fields of the application state
  and nothing else: two states that agree on the buffer, the line width, the group size
  and the encoding give the same lines for every offset, whatever the caches, the scroll
  position and the other fields hold. None of the functions changes the state: they
  return the text only.
\<close>

theorem formatting_deterministic:
  assumes "fileData h1 = fileData h2" and "bytesPerLine h1 = bytesPerLine h2"
    and "bytesPerGroup h1 = bytesPerGroup h2" and "encoding h1 = encoding h2"
  shows "generateHexLine h1 offset = generateHexLine h2 offset \<and>
         generateCharLine L h1 offset = generateCharLine L h2 offset \<and>
         bytesToChars L h1 data = bytesToChars L h2 data"
proof (intro conjI)
  have a: "hexGroups h1 l i b = hexGroups h2 l i b" for l i b
    using assms by (intro hexGroups_cong) simp_all
  have b: "lineEndOf h1 offset = lineEndOf h2 offset"
    using assms by (simp add: lineEndOf_def)
  have c: "finishLine h1 offset l b = finishLine h2 offset l b" for l b
    unfolding finishLine_def assms(2,3) ..
  show "generateHexLine h1 offset = generateHexLine h2 offset"
    unfolding generateHexLine_alt a b c ..
  show d: "bytesToChars L h1 data = bytesToChars L h2 data" for data
    using assms by (simp add: bytesToChars_def)
  show "generateCharLine L h1 offset = generateCharLine L h2 offset"
    unfolding generateCharLine_def assms(1,2) d ..
qed

theorem formatting_deterministic_witness:
  "generateHexLine helloApp 0 = generateHexLine scrolledApp 0 \<and>
   generateCharLine exampleLib helloApp 0 = generateCharLine exampleLib scrolledApp 0 \<and>
   bytesToChars exampleLib helloApp [0x48, 0x69] = bytesToChars exampleLib scrolledApp [0x48, 0x69]"
  using formatting_deterministic [of helloApp scrolledApp 0 exampleLib "[0x48, 0x69]"]
  by (simp add: scrolledApp_def)

section \<open>Claims about the decoders\<close>

text \<open>
  Claim C7. \<open>bytesToLatin1\<close> maps each byte on its own: the result is the UTF-8 text of
  one code point per byte, which is the byte value for the bytes 32 to 126 and 160 to 255
  and the dot for every other byte. On the bytes of \<open>Hello\<close> it is \<open>Hello\<close>.
\<close>

theorem latin1_mapping:
  "bytesToLatin1 data = concat (map (\<lambda>b. EncodeRune (latin1Rune b)) data) \<and>
   stringRunes (bytesToLatin1 data) = map latin1Rune data \<and>
   bytesToLatin1 [0x48, 0x65, 0x6C, 0x6C, 0x6F] = str ''Hello''"
proof (intro conjI)
  show a: "bytesToLatin1 data = concat (map (\<lambda>b. EncodeRune (latin1Rune b)) data)" for data
    by (simp add: bytesToLatin1_def latin1Loop_eq)
  show "stringRunes (bytesToLatin1 data) = map latin1Rune data"
    by (simp add: a stringRunes_latin1)
  show "bytesToLatin1 [0x48, 0x65, 0x6C, 0x6C, 0x6F] = str ''Hello''"
    by (simp add: bytesToLatin1_def str_def)
qed

text \<open>
  Claim C10. The string returned by \<open>bytesToLatin1\<close> has exactly one rune for each
  input byte.
\<close>

theorem latin1_rune_count:
  "RuneCountInString (bytesToLatin1 data) = int (length data)"
  by (simp add: RuneCountInString_def bytesToLatin1_def latin1Loop_eq stringRunes_latin1)

text \<open>
  Claim C6. \<open>bytesToUTF16LE\<close> reads the bytes in little-endian pairs and writes, for
  each 16-bit unit on its own, its code point when printable and a dot otherwise; the code
  point of a surrogate unit is \<open>U+FFFD\<close>, whatever unit follows. For an odd number of
  bytes one more dot stands for the last byte.
\<close>

theorem utf16le_units:
  "bytesToUTF16LE L data =
     concat (map (\<lambda>u. emit L (unitRune u)) (codeUnits data)) @
     (if odd (length data) then str ''.'' else [])"
  by (simp add: bytesToUTF16LE_def utf16Loop_eq utf16Text_eq)

theorem utf16le_units_witness:
  "bytesToUTF16LE exampleLib [0x48, 0x00, 0x3D, 0xD8, 0x00, 0xDE, 0x69] = str ''H...''"
  using utf16le_units [of exampleLib "[0x48, 0x00, 0x3D, 0xD8, 0x00, 0xDE, 0x69]"]
  by (simp add: emit_def unitRune_def exampleLib_def EncodeRune_def str_def)

text \<open>
  Claim C4 and the code. \<open>bytesToGB18030\<close> writes one dot for each input byte only when
  the decoder returns an error; the comment at that branch and the README say that
  invalid sequences are shown as dots. The decoder of \<open>golang.org/x/text\<close> returns no
  error on invalid input: it puts \<open>U+FFFD\<close> for each byte that starts no valid sequence,
  and \<open>U+FFFD\<close> is printable. On the three bytes \<open>81 30 FF\<close> it returns \<open>U+FFFD\<close>, the
  digit 0 and \<open>U+FFFD\<close>, and \<open>bytesToGB18030\<close> returns these three characters and not
  three dots.
\<close>

theorem gb18030_invalid_not_dots:
  assumes "GB18030_Bytes L [0x81, 0x30, 0xFF] = Some (EncodeRune 0xFFFD @ str ''0'' @ EncodeRune 0xFFFD)"
    and "IsPrint L 0xFFFD" and "IsPrint L 0x30"
  shows "bytesToGB18030 L [0x81, 0x30, 0xFF] = EncodeRune 0xFFFD @ str ''0'' @ EncodeRune 0xFFFD \<and>
         bytesToGB18030 L [0x81, 0x30, 0xFF] \<noteq> str ''...''"
proof -
  have "bytesToGB18030 L [0x81, 0x30, 0xFF] = EncodeRune 0xFFFD @ str ''0'' @ EncodeRune 0xFFFD"
    using assms by (simp add: bytesToGB18030_eq stringRunes_replaced emit_def) (simp add: EncodeRune_def str_def)
  moreover have "EncodeRune 0xFFFD @ str ''0'' @ EncodeRune 0xFFFD \<noteq> str ''...''"
    by (simp add: EncodeRune_def encode3_def MaxRune_def str_def)
  ultimately show ?thesis by simp
qed

theorem gb18030_invalid_not_dots_witness:
  "bytesToGB18030 replacingLib [0x81, 0x30, 0xFF] = [0xEF, 0xBF, 0xBD, 0x30, 0xEF, 0xBF, 0xBD]"
  using gb18030_invalid_not_dots [of replacingLib]
  by (simp add: replacingLib_def EncodeRune_def encode3_def MaxRune_def str_def)

text \<open>
  Claim C5. \<open>bytesToUTF8\<close> decodes one code point at a time from the front. Where
  \<open>utf8.DecodeRune\<close> fails, that is returns \<open>(RuneError, 1)\<close>, it writes one dot and
  goes on after one byte; otherwise it writes the code point when printable and a dot
  otherwise, and goes on after the bytes of that code point. A lone continuation byte
  \<open>0x80\<close> is such a failure and gives a single dot.
\<close>

theorem utf8_greedy:
  "bytesToUTF8 L [] = [] \<and>
   (data \<noteq> [] \<and> DecodeRune data = (RuneError, 1) \<longrightarrow>
      bytesToUTF8 L data = str ''.'' @ bytesToUTF8 L (drop 1 data)) \<and>
   (data \<noteq> [] \<and> DecodeRune data = (r, sz) \<and> (r, sz) \<noteq> (RuneError, 1) \<longrightarrow>
      1 \<le> sz \<and> sz \<le> length data \<and>
      bytesToUTF8 L data =
        (if IsPrint L r then EncodeRune r else str ''.'') @ bytesToUTF8 L (drop sz data)) \<and>
   DecodeRune [0x80] = (RuneError, 1) \<and> bytesToUTF8 L [0x80] = str ''.''"
proof (intro conjI impI)
  have u: "bytesToUTF8 L data = utf8Text L data" for data
    by (simp add: bytesToUTF8_def utf8Loop_eq)
  show "bytesToUTF8 L [] = []"
    unfolding u by (subst utf8Text.simps) simp
  show "bytesToUTF8 L data = str ''.'' @ bytesToUTF8 L (drop 1 data)"
    if "data \<noteq> [] \<and> DecodeRune data = (RuneError, 1)"
    unfolding u using that by (subst utf8Text.simps) simp
  show "bytesToUTF8 L data =
      (if IsPrint L r then EncodeRune r else str ''.'') @ bytesToUTF8 L (drop sz data)"
    if "data \<noteq> [] \<and> DecodeRune data = (r, sz) \<and> (r, sz) \<noteq> (RuneError, 1)"
    unfolding u using that by (subst utf8Text.simps) (auto simp: emit_def)
  show "1 \<le> sz" "sz \<le> length data"
    if "data \<noteq> [] \<and> DecodeRune data = (r, sz) \<and> (r, sz) \<noteq> (RuneError, 1)"
    using that DecodeRune_size [of data] by simp_all
  show d: "DecodeRune [0x80] = (RuneError, 1)"
    by (simp add: DecodeRune_def first_def Let_def)
  show "bytesToUTF8 L [0x80] = str ''.''"
    unfolding u by (subst utf8Text.simps, subst utf8Text.simps) (simp add: d)
qed

theorem utf8_greedy_witness:
  "bytesToUTF8 exampleLib [0x41, 0x80, 0xC3, 0xA9, 0x07] = str ''A...''"
  using utf8_greedy [of exampleLib "[0x41, 0x80, 0xC3, 0xA9, 0x07]" "0x41" 1]
    utf8_greedy [of exampleLib "[0x80, 0xC3, 0xA9, 0x07]"]
    utf8_greedy [of exampleLib "[0xC3, 0xA9, 0x07]" "0xE9" 2]
    utf8_greedy [of exampleLib "[0x07]" 7 1]
  by (simp add: DecodeRune_def first_def acceptRanges_def Let_def RuneError_def exampleLib_def
      EncodeRune_def str_def)

end
